theory Spec2Isabelle
  imports Complex_Main
begin

section \<open>Geometric primitives\<close>

text \<open>
  The mesh code of \<^verbatim>\<open>tesselate/mesh.h\<close> works on \<^verbatim>\<open>cgp::Point\<close> and
  \<^verbatim>\<open>cgp::Vector\<close>, two triples of \<^verbatim>\<open>float\<close> declared in \<^verbatim>\<open>vecpnt.h\<close>.
  That header is not among the sources, so the two types and the handful of
  operations that \<^verbatim>\<open>Triangle::deriveNormal\<close> calls are modelled from the
  specification. Coordinates are real numbers here; the section on rounded
  arithmetic adds the rounding of \<^verbatim>\<open>float\<close> operations, for the one property
  below that depends on it.
\<close>

text \<open>Modelled from the spec: \<^verbatim>\<open>cgp::Point\<close> and \<^verbatim>\<open>cgp::Vector\<close> of
  \<^verbatim>\<open>vecpnt.h\<close>, an affine position and a free direction of three components
  each.\<close>

datatype Point = Point (px: real) (py: real) (pz: real)

datatype Vector = Vector (vi: real) (vj: real) (vk: real)

text \<open>Modelled from the spec: \<^verbatim>\<open>Vector::diff(p, q)\<close> of \<^verbatim>\<open>vecpnt.h\<close>, the
  difference of two points (the spec writes \<^verbatim>\<open>p3-p2\<close> for \<^verbatim>\<open>a.diff(p3, p2)\<close>).\<close>

definition diff :: "Point \<Rightarrow> Point \<Rightarrow> Vector" where
  "diff p q = Vector (px p - px q) (py p - py q) (pz p - pz q)"

text \<open>Modelled from the spec: \<^verbatim>\<open>Vector::cross(a, b)\<close> of \<^verbatim>\<open>vecpnt.h\<close>, the
  cross product.\<close>

definition cross :: "Vector \<Rightarrow> Vector \<Rightarrow> Vector" where
  "cross a b = Vector (vj a * vk b - vk a * vj b)
                      (vk a * vi b - vi a * vk b)
                      (vi a * vj b - vj a * vi b)"

text \<open>Modelled from the spec: \<^verbatim>\<open>Vector::mult(c)\<close> of \<^verbatim>\<open>vecpnt.h\<close>, scalar
  multiplication.\<close>

definition mult :: "real \<Rightarrow> Vector \<Rightarrow> Vector" where
  "mult c a = Vector (c * vi a) (c * vj a) (c * vk a)"

text \<open>Modelled from the spec: the Euclidean length that \<^verbatim>\<open>Vector::normalize()\<close>
  of \<^verbatim>\<open>vecpnt.h\<close> divides by.\<close>

definition vlength :: "Vector \<Rightarrow> real" where
  "vlength a = sqrt (vi a * vi a + vj a * vj a + vk a * vk a)"

text \<open>Modelled from the spec: \<^verbatim>\<open>Vector::normalize()\<close> of \<^verbatim>\<open>vecpnt.h\<close>: every
  component is divided by the Euclidean length; a vector of length zero has no
  direction and is left as it is.\<close>

definition normalize_vec :: "Vector \<Rightarrow> Vector" where
  "normalize_vec a =
     (let len = vlength a
      in if len > 0 then Vector (vi a / len) (vj a / len) (vk a / len) else a)"

text \<open>Modelled from the spec: \<^verbatim>\<open>Vector::operator==\<close> of \<^verbatim>\<open>vecpnt.h\<close>, the
  tolerance-based equality of vectors. The tolerance constant is a parameter.\<close>

definition veq :: "real \<Rightarrow> Vector \<Rightarrow> Vector \<Rightarrow> bool" where
  "veq tol a b \<longleftrightarrow>
     \<bar>vi a - vi b\<bar> < tol \<and> \<bar>vj a - vj b\<bar> < tol \<and> \<bar>vk a - vk b\<bar> < tol"

text \<open>The negation of a vector, used to state what \<^verbatim>\<open>mult(-1)\<close> computes.\<close>

definition vneg :: "Vector \<Rightarrow> Vector" where
  "vneg a = Vector (- vi a) (- vj a) (- vk a)"

section \<open>Triangles\<close>

text \<open>
  \<^verbatim>\<open>struct Triangle { int v[3]; cgp::Vector n; }\<close>: the array of three indices
  is the three fields \<open>v0\<close>, \<open>v1\<close>, \<open>v2\<close>; the cached normal is \<open>nrm\<close>.
\<close>

record Triangle =
  v0 :: int
  v1 :: int
  v2 :: int
  nrm :: Vector

definition vertexFound :: "Triangle \<Rightarrow> int \<Rightarrow> bool" where
  "vertexFound t vertex =
     (if vertex = v0 t \<or> vertex = v1 t \<or> vertex = v2 t then True else False)"

text \<open>An index is usable on a \<^verbatim>\<open>std::vector\<close> when it lies in
  \<open>[0, size)\<close>; \<^verbatim>\<open>operator[]\<close> outside that range is undefined behaviour.\<close>

definition inBounds :: "'a list \<Rightarrow> int \<Rightarrow> bool" where
  "inBounds xs idx \<longleftrightarrow> 0 \<le> idx \<and> idx < int (length xs)"

definition triInBounds :: "Point list \<Rightarrow> Triangle \<Rightarrow> bool" where
  "triInBounds vts t \<longleftrightarrow> inBounds vts (v0 t) \<and> inBounds vts (v1 t) \<and> inBounds vts (v2 t)"

text \<open>
  Lines 42 to 59 of \<^verbatim>\<open>Triangle::deriveNormal\<close>: fetch the three corner
  positions, form \<open>a\<close> and \<open>b\<close>, cross them, multiply by \<open>-1\<close>, normalize.
  An index outside the vertex list gives \<open>None\<close>.
\<close>

definition faceNormal :: "Point list \<Rightarrow> Triangle \<Rightarrow> Vector option" where
  "faceNormal vts t =
     (if triInBounds vts t then
        (let p1 = vts ! nat (v0 t);
             p2 = vts ! nat (v1 t);
             p3 = vts ! nat (v2 t);
             a = diff p3 p2;
             b = diff p1 p2;
             normal = cross a b;
             normal = mult (- 1) normal;
             normal = normalize_vec normal
         in Some normal)
      else None)"

text \<open>The search loop of lines 62 to 69: stop at the first entry that
  compares equal to the candidate.\<close>

fun normalFound :: "real \<Rightarrow> Vector list \<Rightarrow> Vector \<Rightarrow> bool" where
  "normalFound tol [] normal = False"
| "normalFound tol (x # normals) normal =
     (if veq tol x normal then True else normalFound tol normals normal)"

text \<open>\<^verbatim>\<open>Triangle::deriveNormal(normals, vts)\<close>: the list of normals is passed
  by reference and returned here; the triangle itself is not written.\<close>

definition deriveNormal :: "real \<Rightarrow> Vector list \<Rightarrow> Point list \<Rightarrow> Triangle \<Rightarrow> Vector list option" where
  "deriveNormal tol normals vts t =
     (case faceNormal vts t of
        None \<Rightarrow> None
      | Some normal \<Rightarrow>
          (let found = normalFound tol normals normal
           in if \<not> found then Some (normals @ [normal]) else Some normals))"



text \<open>A list of normals holds pairwise-distinct entries when no entry compares
  equal to another one, whichever of the two stands on the left of \<^verbatim>\<open>==\<close>.\<close>

fun distinctNormals :: "real \<Rightarrow> Vector list \<Rightarrow> bool" where
  "distinctNormals tol [] = True"
| "distinctNormals tol (x # xs) =
     ((\<forall>y \<in> set xs. \<not> veq tol x y \<and> \<not> veq tol y x) \<and> distinctNormals tol xs)"

section \<open>Rounded arithmetic\<close>













section \<open>The mesh\<close>

record Sphere =
  sph_c :: Point
  sph_r :: real
  sph_ind :: "int list"

text \<open>
  The data members of \<^verbatim>\<open>class Mesh\<close>. The colour pointer and the render
  buffer \<^verbatim>\<open>geometry\<close> belong to the OpenGL layer and are left out.
\<close>

record Mesh =
  verts :: "Point list"
  base :: "Point list"
  norms :: "Vector list"
  tris :: "Triangle list"
  mscale :: real
  trx :: Vector
  xrot :: real
  yrot :: real
  zrot :: real
  boundspheres :: "Sphere list"

definition mesh_empty :: "Mesh \<Rightarrow> bool" where
  "mesh_empty m \<longleftrightarrow> verts m = []"



text \<open>One \<^verbatim>\<open>t.v[0] = a; t.v[1] = b; t.v[2] = c; tris.push_back(t);\<close> group of
  \<^verbatim>\<open>setCubeTriangles\<close>. The local \<^verbatim>\<open>Triangle t\<close> is default-constructed and
  its normal is never assigned, so the normal is whatever the default
  constructor of \<^verbatim>\<open>cgp::Vector\<close> leaves: the parameter \<open>n0\<close>.\<close>

definition cubeTri :: "Vector \<Rightarrow> int \<Rightarrow> int \<Rightarrow> int \<Rightarrow> Triangle" where
  "cubeTri n0 a b c = \<lparr>v0 = a, v1 = b, v2 = c, nrm = n0\<rparr>"

definition setCubeTriangles :: "Vector \<Rightarrow> Mesh \<Rightarrow> Mesh" where
  "setCubeTriangles n0 m =
     m\<lparr>tris :=
         [cubeTri n0 1 2 3, cubeTri n0 3 4 1,
          cubeTri n0 4 3 5, cubeTri n0 5 6 4,
          cubeTri n0 6 5 7, cubeTri n0 7 8 6,
          cubeTri n0 8 7 2, cubeTri n0 2 1 8,
          cubeTri n0 8 1 4, cubeTri n0 4 6 8,
          cubeTri n0 2 7 5, cubeTri n0 5 3 2]\<rparr>"

text \<open>A mesh with eight vertices (the corners of the unit cube) and no
  triangles, and a single right triangle, used as concrete inputs.\<close>

definition blankMesh :: Mesh where
  "blankMesh = \<lparr>verts = [], base = [], norms = [], tris = [], mscale = 1,
     trx = Vector 0 0 0, xrot = 0, yrot = 0, zrot = 0, boundspheres = []\<rparr>"

definition cubeVerts :: "Point list" where
  "cubeVerts = [Point 0 0 0, Point 1 0 0, Point 1 1 0, Point 0 1 0,
                Point 0 0 1, Point 1 0 1, Point 1 1 1, Point 0 1 1]"

definition rightTri :: Triangle where
  "rightTri = \<lparr>v0 = 1, v1 = 0, v2 = 3, nrm = Vector 0 0 0\<rparr>"

section \<open>Vertex welding\<close>

text \<open>
  \<^verbatim>\<open>mesh.h\<close> declares \<^verbatim>\<open>void mergeVerts()\<close> and
  \<^verbatim>\<open>long hashVert(cgp::Point pnt, cgp::BoundBox bbox)\<close>; their bodies, and
  \<^verbatim>\<open>cgp::BoundBox\<close>, are not among the sources. The hash function is a
  parameter \<open>hv\<close> of the model, of the declared type.
\<close>

record BoundBox =
  bmin :: Point
  bmax :: Point

text \<open>Modelled from the spec: the axis-aligned bounding box of \<^verbatim>\<open>cgp::BoundBox\<close>
  (absent), the componentwise minimum and maximum over a vertex set.\<close>

definition includePnt :: "BoundBox \<Rightarrow> Point \<Rightarrow> BoundBox" where
  "includePnt bb p =
     \<lparr>bmin = Point (min (px (bmin bb)) (px p)) (min (py (bmin bb)) (py p)) (min (pz (bmin bb)) (pz p)),
      bmax = Point (max (px (bmax bb)) (px p)) (max (py (bmax bb)) (py p)) (max (pz (bmax bb)) (pz p))\<rparr>"

text \<open>Modelled from the spec: the bounding box of the whole vertex list, as
  \<^verbatim>\<open>mergeVerts\<close> (absent) computes it first. The box of no vertex is not
  described; it is the origin here.\<close>

fun boundBox :: "Point list \<Rightarrow> BoundBox" where
  "boundBox [] = \<lparr>bmin = Point 0 0 0, bmax = Point 0 0 0\<rparr>"
| "boundBox (p # ps) = fold (\<lambda>q bb. includePnt bb q) ps \<lparr>bmin = p, bmax = p\<rparr>"

text \<open>Modelled from the spec: the comparison of two candidate positions inside
  a bucket of \<^verbatim>\<open>mergeVerts\<close> (absent): equality within an explicit
  tolerance, coordinate by coordinate. The tolerance is a parameter; tolerance
  zero is the exact comparison.\<close>

definition samePoint :: "real \<Rightarrow> Point \<Rightarrow> Point \<Rightarrow> bool" where
  "samePoint tol p q \<longleftrightarrow>
     \<bar>px p - px q\<bar> \<le> tol \<and> \<bar>py p - py q\<bar> \<le> tol \<and> \<bar>pz p - pz q\<bar> \<le> tol"

text \<open>Modelled from the spec: the search inside one bucket of \<^verbatim>\<open>mergeVerts\<close>
  (absent): the first index whose welded vertex is the same point within the
  tolerance.\<close>

fun findCandidate :: "real \<Rightarrow> Point list \<Rightarrow> nat list \<Rightarrow> Point \<Rightarrow> nat option" where
  "findCandidate tol clean [] p = None"
| "findCandidate tol clean (i # bucket) p =
     (if samePoint tol (clean ! i) p then Some i else findCandidate tol clean bucket p)"

text \<open>
  Modelled from the spec: the welding loop of \<^verbatim>\<open>mergeVerts\<close> (absent). The
  state is the compacted vertex list, the buckets (hash key to indices of the
  compacted list) and the new index of every vertex seen so far. A vertex whose
  bucket holds the same point takes that point's index; any other vertex is
  appended and entered into its bucket, so the first occurrence is canonical.
\<close>

fun weld :: "(Point \<Rightarrow> BoundBox \<Rightarrow> int) \<Rightarrow> real \<Rightarrow> BoundBox \<Rightarrow> Point list
    \<Rightarrow> Point list \<times> (int \<Rightarrow> nat list) \<times> nat list
    \<Rightarrow> Point list \<times> (int \<Rightarrow> nat list) \<times> nat list" where
  "weld hv tol bb [] st = st"
| "weld hv tol bb (p # ps) (clean, buckets, remap) =
     (let key = hv p bb
      in case findCandidate tol clean (buckets key) p of
           Some i \<Rightarrow> weld hv tol bb ps (clean, buckets, remap @ [i])
         | None \<Rightarrow>
             weld hv tol bb ps
               (clean @ [p], buckets(key := buckets key @ [length clean]), remap @ [length clean]))"

text \<open>Modelled from the spec: the rewriting of one triangle index by
  \<^verbatim>\<open>mergeVerts\<close> (absent). The spec is silent on an index outside the vertex
  list; the model leaves such an index as it is.\<close>

definition remapIndex :: "nat list \<Rightarrow> int \<Rightarrow> int" where
  "remapIndex remap idx = (if inBounds remap idx then int (remap ! nat idx) else idx)"

definition remapTri :: "nat list \<Rightarrow> Triangle \<Rightarrow> Triangle" where
  "remapTri remap t =
     t\<lparr>v0 := remapIndex remap (v0 t), v1 := remapIndex remap (v1 t), v2 := remapIndex remap (v2 t)\<rparr>"

text \<open>Modelled from the spec: \<^verbatim>\<open>Mesh::mergeVerts\<close> (absent): compute the
  bounding box, weld the vertices through the spatial hash, rewrite every
  triangle index. No triangle is added, dropped or reordered.\<close>

definition mergeVerts :: "(Point \<Rightarrow> BoundBox \<Rightarrow> int) \<Rightarrow> real \<Rightarrow> Mesh \<Rightarrow> Mesh" where
  "mergeVerts hv tol m =
     (let bbox = boundBox (verts m);
          (clean, buckets, remap) = weld hv tol bbox (verts m) ([], (\<lambda>k. []), [])
      in m\<lparr>verts := clean, tris := map (remapTri remap) (tris m)\<rparr>)"




text \<open>A hash that quantizes the first coordinate, measured from the minimum
  corner of the bounding box, into cells of unit width; a triangle soup of two
  triangles that share an edge; and four vertices on a line with one
  triangle, used as concrete inputs.\<close>

definition floorHash :: "Point \<Rightarrow> BoundBox \<Rightarrow> int" where
  "floorHash p bb = \<lfloor>px p - px (bmin bb)\<rfloor>"

definition soupMesh :: Mesh where
  "soupMesh = blankMesh
     \<lparr>verts := [Point 0 0 0, Point 1 0 0, Point 0 1 0, Point 1 0 0, Point 1 1 0, Point 0 1 0],
      tris := [\<lparr>v0 = 0, v1 = 1, v2 = 2, nrm = Vector 0 0 1\<rparr>,
               \<lparr>v0 = 3, v1 = 4, v2 = 5, nrm = Vector 0 0 1\<rparr>]\<rparr>"


section \<open>Laplacian smoothing\<close>

text \<open>
  \<^verbatim>\<open>mesh.h\<close> declares \<^verbatim>\<open>void laplacianSmooth(int iter, float rate)\<close>; the
  body is not among the sources.
\<close>










text \<open>A tetrahedron with consistent winding, used as a concrete input.\<close>

definition tetMesh :: Mesh where
  "tetMesh = blankMesh
     \<lparr>verts := [Point 0 0 0, Point 3 0 0, Point 0 3 0, Point 0 0 3],
      tris := [\<lparr>v0 = 0, v1 = 2, v2 = 1, nrm = Vector 0 0 0\<rparr>,
               \<lparr>v0 = 0, v1 = 1, v2 = 3, nrm = Vector 0 0 0\<rparr>,
               \<lparr>v0 = 1, v1 = 2, v2 = 3, nrm = Vector 0 0 0\<rparr>,
               \<lparr>v0 = 0, v1 = 3, v2 = 2, nrm = Vector 0 0 0\<rparr>]\<rparr>"

section \<open>Manifold validity\<close>

text \<open>
  \<^verbatim>\<open>mesh.h\<close> defines \<^verbatim>\<open>struct Edge { int v[2]; }\<close> and declares
  \<^verbatim>\<open>bool sameEdge(Edge e1, Edge e2, bool & opposite)\<close> and
  \<^verbatim>\<open>bool manifoldValidity()\<close>; the two bodies are not among the sources.
\<close>

record Edge =
  ev0 :: int
  ev1 :: int

text \<open>Modelled from the spec: \<^verbatim>\<open>Mesh::sameEdge\<close> (absent). The first
  component is the return value (the edges index the same vertices), the
  second is the out-parameter \<^verbatim>\<open>opposite\<close> (they run in opposite
  directions).\<close>

definition sameEdge :: "Edge \<Rightarrow> Edge \<Rightarrow> bool \<times> bool" where
  "sameEdge e1 e2 =
     (if ev0 e1 = ev0 e2 \<and> ev1 e1 = ev1 e2 then (True, False)
      else if ev0 e1 = ev1 e2 \<and> ev1 e1 = ev0 e2 then (True, True)
      else (False, False))"

text \<open>Modelled from the spec: the three edges of a triangle that
  \<^verbatim>\<open>manifoldValidity\<close> (absent) compares, in the order of the winding.\<close>

definition triEdges :: "Triangle \<Rightarrow> Edge list" where
  "triEdges t = [\<lparr>ev0 = v0 t, ev1 = v1 t\<rparr>, \<lparr>ev0 = v1 t, ev1 = v2 t\<rparr>, \<lparr>ev0 = v2 t, ev1 = v0 t\<rparr>]"

text \<open>Modelled from the spec: inside \<^verbatim>\<open>manifoldValidity\<close> (absent), the
  results of \<^verbatim>\<open>sameEdge\<close> for edge \<open>e\<close> against the three edges of one
  triangle, the misses dropped.\<close>

definition edgeHits :: "Edge \<Rightarrow> Triangle \<Rightarrow> (bool \<times> bool) list" where
  "edgeHits e t = filter fst (map (sameEdge e) (triEdges t))"

text \<open>Modelled from the spec: inside \<^verbatim>\<open>manifoldValidity\<close> (absent), edge
  \<open>e\<close> of triangle number \<open>a\<close> passes when the scan over all other triangles
  finds the edge exactly once, running the opposite way.\<close>

definition edgeOk :: "Triangle list \<Rightarrow> nat \<Rightarrow> Edge \<Rightarrow> bool" where
  "edgeOk ts a e \<longleftrightarrow>
     concat (map (\<lambda>b. if b = a then [] else edgeHits e (ts ! b)) [0..<length ts]) = [(True, True)]"

text \<open>Modelled from the spec: the edge test of \<^verbatim>\<open>manifoldValidity\<close>
  (absent): the edge-adjacency relation is built with \<^verbatim>\<open>sameEdge\<close>, and
  every edge of every triangle has to pass.\<close>

definition edgeValidity :: "Mesh \<Rightarrow> bool" where
  "edgeValidity m \<longleftrightarrow>
     (\<forall>a \<in> set [0..<length (tris m)]. \<forall>e \<in> set (triEdges (tris m ! a)). edgeOk (tris m) a e)"

text \<open>Modelled from the spec: the vertices whose fans \<^verbatim>\<open>manifoldValidity\<close>
  (absent) tests: every index that a triangle references, once. A vertex that
  no triangle references has no fan to test.\<close>

definition usedVerts :: "Triangle list \<Rightarrow> int list" where
  "usedVerts ts = remdups (concat (map (\<lambda>t. [v0 t, v1 t, v2 t]) ts))"

text \<open>Modelled from the spec: the fan of vertex \<open>v\<close> in
  \<^verbatim>\<open>manifoldValidity\<close> (absent): the numbers of the triangles incident to
  \<open>v\<close>, in list order.\<close>

definition fanTris :: "Triangle list \<Rightarrow> int \<Rightarrow> nat list" where
  "fanTris ts v = filter (\<lambda>i. vertexFound (ts ! i) v) [0..<length ts]"

text \<open>Modelled from the spec: inside \<^verbatim>\<open>manifoldValidity\<close> (absent), two
  triangles are neighbours in the fan of \<open>v\<close> when \<^verbatim>\<open>sameEdge\<close> finds an
  edge of the first that ends at \<open>v\<close> among the edges of the second.\<close>

definition fanLinked :: "Triangle list \<Rightarrow> int \<Rightarrow> nat \<Rightarrow> nat \<Rightarrow> bool" where
  "fanLinked ts v a b \<longleftrightarrow>
     (\<exists>e \<in> set (triEdges (ts ! a)). (ev0 e = v \<or> ev1 e = v) \<and> edgeHits e (ts ! b) \<noteq> [])"

text \<open>Modelled from the spec: one round of the walk around a vertex in
  \<^verbatim>\<open>manifoldValidity\<close> (absent): the triangles of the fan reached so far,
  and their neighbours in the fan.\<close>

definition fanGrow :: "Triangle list \<Rightarrow> int \<Rightarrow> nat list \<Rightarrow> nat list \<Rightarrow> nat list" where
  "fanGrow ts v fan reached =
     filter (\<lambda>b. b \<in> set reached \<or> (\<exists>a \<in> set reached. fanLinked ts v a b)) fan"

text \<open>Modelled from the spec: \<open>k\<close> rounds of the walk.\<close>

fun fanWalk :: "nat \<Rightarrow> Triangle list \<Rightarrow> int \<Rightarrow> nat list \<Rightarrow> nat list \<Rightarrow> nat list" where
  "fanWalk 0 ts v fan reached = reached"
| "fanWalk (Suc k) ts v fan reached = fanWalk k ts v fan (fanGrow ts v fan reached)"

text \<open>Modelled from the spec: the vertex test of \<^verbatim>\<open>manifoldValidity\<close>
  (absent): the walk starts at the first triangle of the fan, runs one round
  per triangle of the fan, and has to reach all of them (no bowtie).\<close>

definition fanOk :: "Triangle list \<Rightarrow> int \<Rightarrow> bool" where
  "fanOk ts v =
     (case fanTris ts v of
        [] \<Rightarrow> True
      | a # rest \<Rightarrow> fanWalk (length (a # rest)) ts v (a # rest) [a] = a # rest)"

definition fanValidity :: "Mesh \<Rightarrow> bool" where
  "fanValidity m \<longleftrightarrow> (\<forall>v \<in> set (usedVerts (tris m)). fanOk (tris m) v)"

text \<open>Modelled from the spec: \<^verbatim>\<open>Mesh::manifoldValidity\<close> (absent): every
  edge is shared by exactly two triangles with opposite traversal direction,
  and the triangles around every vertex form a single fan.\<close>

definition manifoldValidity :: "Mesh \<Rightarrow> bool" where
  "manifoldValidity m \<longleftrightarrow> edgeValidity m \<and> fanValidity m"

text \<open>
  The property in the words of the spec. An edge is incident to a triangle
  that has an edge on the same two vertices; a triangle traverses an edge
  that is one of its three directed edges. Two triangles traverse an edge in
  opposite directions when one runs it one way only and the other runs it
  the other way only.
\<close>

definition incident :: "Triangle \<Rightarrow> Edge \<Rightarrow> bool" where
  "incident t e \<longleftrightarrow> (\<exists>e' \<in> set (triEdges t). {ev0 e', ev1 e'} = {ev0 e, ev1 e})"

definition traverses :: "Triangle \<Rightarrow> Edge \<Rightarrow> bool" where
  "traverses t e \<longleftrightarrow> e \<in> set (triEdges t)"

definition revEdge :: "Edge \<Rightarrow> Edge" where
  "revEdge e = \<lparr>ev0 = ev1 e, ev1 = ev0 e\<rparr>"

definition oppositePair :: "Triangle \<Rightarrow> Triangle \<Rightarrow> Edge \<Rightarrow> bool" where
  "oppositePair s t e \<longleftrightarrow>
     traverses s e \<and> \<not> traverses s (revEdge e) \<and> traverses t (revEdge e) \<and> \<not> traverses t e"

definition edgeManifold :: "Triangle list \<Rightarrow> Edge \<Rightarrow> bool" where
  "edgeManifold ts e \<longleftrightarrow>
     (\<exists>a b. a < length ts \<and> b < length ts \<and> a \<noteq> b
         \<and> {i. i < length ts \<and> incident (ts ! i) e} = {a, b}
         \<and> oppositePair (ts ! a) (ts ! b) e)"

definition twoManifold :: "Triangle list \<Rightarrow> bool" where
  "twoManifold ts \<longleftrightarrow> (\<forall>t \<in> set ts. \<forall>e \<in> set (triEdges t). edgeManifold ts e)"

definition isLoop :: "Edge \<Rightarrow> bool" where
  "isLoop e \<longleftrightarrow> ev0 e = ev1 e"

text \<open>
  The fan condition in the words of the spec. Two triangles incident to
  vertex \<open>v\<close> are adjacent around \<open>v\<close> when an edge of the first that ends
  at \<open>v\<close> is incident to the second; the triangles around \<open>v\<close> form a
  single fan when every two of them are joined by a chain of such
  adjacencies.
\<close>

definition fanRel :: "Triangle list \<Rightarrow> int \<Rightarrow> (nat \<times> nat) set" where
  "fanRel ts v =
     {(a, b). a < length ts \<and> b < length ts \<and> vertexFound (ts ! a) v \<and> vertexFound (ts ! b) v
        \<and> (\<exists>e \<in> set (triEdges (ts ! a)). (ev0 e = v \<or> ev1 e = v) \<and> incident (ts ! b) e)}"

definition singleFan :: "Triangle list \<Rightarrow> int \<Rightarrow> bool" where
  "singleFan ts v \<longleftrightarrow>
     (\<forall>a b. a < length ts \<and> b < length ts \<and> vertexFound (ts ! a) v \<and> vertexFound (ts ! b) v
        \<longrightarrow> (a, b) \<in> (fanRel ts v)\<^sup>*)"

definition singleFans :: "Triangle list \<Rightarrow> bool" where
  "singleFans ts \<longleftrightarrow> (\<forall>v. singleFan ts v)"

text \<open>A set of triangles of the fan is closed when no round of the walk adds
  to it.\<close>

definition fanClosed :: "Triangle list \<Rightarrow> int \<Rightarrow> nat list \<Rightarrow> nat set \<Rightarrow> bool" where
  "fanClosed ts v fan S \<longleftrightarrow> (\<forall>a \<in> S. \<forall>b \<in> set fan. fanLinked ts v a b \<longrightarrow> b \<in> S)"

text \<open>The tetrahedron with every triangle listed twice: a double shell.\<close>

definition overlapMesh :: Mesh where
  "overlapMesh = tetMesh\<lparr>tris := tris tetMesh @ tris tetMesh\<rparr>"

text \<open>Two tetrahedra with consistent winding that touch at vertex 0 and share
  no edge.\<close>

definition touchMesh :: Mesh where
  "touchMesh = blankMesh
     \<lparr>verts := [Point 0 0 0, Point 3 0 0, Point 0 3 0, Point 0 0 3,
                Point (- 3) 0 0, Point 0 (- 3) 0, Point 0 0 (- 3)],
      tris := [\<lparr>v0 = 0, v1 = 2, v2 = 1, nrm = Vector 0 0 0\<rparr>,
               \<lparr>v0 = 0, v1 = 1, v2 = 3, nrm = Vector 0 0 0\<rparr>,
               \<lparr>v0 = 1, v1 = 2, v2 = 3, nrm = Vector 0 0 0\<rparr>,
               \<lparr>v0 = 0, v1 = 3, v2 = 2, nrm = Vector 0 0 0\<rparr>,
               \<lparr>v0 = 0, v1 = 5, v2 = 4, nrm = Vector 0 0 0\<rparr>,
               \<lparr>v0 = 0, v1 = 4, v2 = 6, nrm = Vector 0 0 0\<rparr>,
               \<lparr>v0 = 4, v1 = 5, v2 = 6, nrm = Vector 0 0 0\<rparr>,
               \<lparr>v0 = 0, v1 = 6, v2 = 5, nrm = Vector 0 0 0\<rparr>]\<rparr>"

section \<open>Properties of the triangle code\<close>

lemma mult_minus_one: "mult (- 1) a = vneg a"
  by (simp add: mult_def vneg_def)

lemma normalFound_iff: "normalFound tol normals normal \<longleftrightarrow> (\<exists>x \<in> set normals. veq tol x normal)"
  by (induction normals) auto


lemma veq_sym: "veq tol a b \<longleftrightarrow> veq tol b a"
  by (auto simp: veq_def abs_minus_commute)

lemma distinctNormals_snoc:
  "distinctNormals tol (xs @ [c]) \<longleftrightarrow>
     distinctNormals tol xs \<and> (\<forall>x \<in> set xs. \<not> veq tol x c \<and> \<not> veq tol c x)"
  by (induction xs) auto

lemma faceNormal_in_bounds:
  "triInBounds vts t \<Longrightarrow>
   faceNormal vts t =
     Some (normalize_vec (vneg (cross (diff (vts ! nat (v2 t)) (vts ! nat (v1 t)))
                                  (diff (vts ! nat (v0 t)) (vts ! nat (v1 t))))))"
  by (simp add: faceNormal_def Let_def mult_minus_one)

text \<open>The convention of \<^verbatim>\<open>diff\<close> does not matter for the cross product: were
  \<^verbatim>\<open>diff(p, q)\<close> the vector from \<open>p\<close> to \<open>q\<close>, both factors would change
  sign and the product would stay.\<close>

lemma cross_diff_convention:
  "cross (diff p2 p3) (diff p2 p1) = cross (diff p3 p2) (diff p1 p2)"
  by (simp add: cross_def diff_def algebra_simps)

text \<open>
  Claim C1. For a triangle whose three indices are in bounds of the vertex
  list, the candidate normal of \<^verbatim>\<open>Triangle::deriveNormal\<close> is the
  normalization of the negated cross product \<open>(p3 - p2) \<times> (p1 - p2)\<close>, where
  \<open>p1\<close>, \<open>p2\<close>, \<open>p3\<close> are the positions of the first, second and third vertex;
  the call returns the list of normals unchanged when an entry compares equal
  to that candidate, and with the candidate appended otherwise.
\<close>

theorem deriveNormal_candidate:
  assumes "triInBounds vts t"
  shows "faceNormal vts t =
           Some (normalize_vec (vneg (cross (diff (vts ! nat (v2 t)) (vts ! nat (v1 t)))
                                            (diff (vts ! nat (v0 t)) (vts ! nat (v1 t))))))
         \<and> deriveNormal tol normals vts t =
           Some (if (\<exists>x \<in> set normals.
                       veq tol x (normalize_vec (vneg (cross (diff (vts ! nat (v2 t)) (vts ! nat (v1 t)))
                                                             (diff (vts ! nat (v0 t)) (vts ! nat (v1 t)))))))
                 then normals
                 else normals @ [normalize_vec (vneg (cross (diff (vts ! nat (v2 t)) (vts ! nat (v1 t)))
                                                            (diff (vts ! nat (v0 t)) (vts ! nat (v1 t)))))])"
proof -
  have cand: "faceNormal vts t =
           Some (normalize_vec (vneg (cross (diff (vts ! nat (v2 t)) (vts ! nat (v1 t)))
                                            (diff (vts ! nat (v0 t)) (vts ! nat (v1 t))))))"
    using assms by (rule faceNormal_in_bounds)
  show ?thesis
    by (simp add: cand deriveNormal_def normalFound_iff)
qed

lemma rightTri_in_bounds: "triInBounds cubeVerts rightTri"
  by (simp add: triInBounds_def inBounds_def cubeVerts_def rightTri_def)

lemma rightTri_cross:
  "cross (diff (cubeVerts ! nat (v2 rightTri)) (cubeVerts ! nat (v1 rightTri)))
         (diff (cubeVerts ! nat (v0 rightTri)) (cubeVerts ! nat (v1 rightTri))) = Vector 0 0 (- 1)"
  by (simp add: cubeVerts_def rightTri_def cross_def diff_def)

lemma normalize_unit_z: "normalize_vec (Vector 0 0 1) = Vector 0 0 1"
  by (simp add: normalize_vec_def vlength_def)

theorem deriveNormal_candidate_witness:
  "triInBounds cubeVerts rightTri
   \<and> faceNormal cubeVerts rightTri = Some (Vector 0 0 1)
   \<and> deriveNormal (1 / 1000) [Vector 1 0 0] cubeVerts rightTri = Some [Vector 1 0 0, Vector 0 0 1]"
  using deriveNormal_candidate [OF rightTri_in_bounds, of "1 / 1000" "[Vector 1 0 0]"]
  by (simp add: rightTri_in_bounds rightTri_cross vneg_def normalize_unit_z veq_def)

subsection \<open>Rounding\<close>




































text \<open>
  Claim C8. For every triangle with in-bounds indices, \<^verbatim>\<open>Triangle::deriveNormal\<close>
  returns, and it either leaves the list of normals as it was or appends one
  vector that compares equal (under the tolerance-based equality of vectors)
  to no entry already in the list; hence a list of pairwise-distinct normals
  is still pairwise distinct after the call.
\<close>

theorem deriveNormal_keeps_distinct:
  assumes "triInBounds vts t"
  shows "\<exists>normals'. deriveNormal tol normals vts t = Some normals'
           \<and> (normals' = normals
               \<or> (\<exists>c. normals' = normals @ [c] \<and> (\<forall>x \<in> set normals. \<not> veq tol x c)))
           \<and> (distinctNormals tol normals \<longrightarrow> distinctNormals tol normals')"
proof -
  obtain c where c: "faceNormal vts t = Some c"
    using faceNormal_in_bounds [OF assms] by blast
  show ?thesis
  proof (cases "normalFound tol normals c")
    case True
    then have "deriveNormal tol normals vts t = Some normals"
      by (simp add: deriveNormal_def c)
    then show ?thesis by simp
  next
    case False
    then have res: "deriveNormal tol normals vts t = Some (normals @ [c])"
      by (simp add: deriveNormal_def c)
    from False have fresh: "\<forall>x \<in> set normals. \<not> veq tol x c"
      by (simp add: normalFound_iff)
    then have "\<forall>x \<in> set normals. \<not> veq tol x c \<and> \<not> veq tol c x"
      using veq_sym by blast
    then have "distinctNormals tol normals \<longrightarrow> distinctNormals tol (normals @ [c])"
      by (simp add: distinctNormals_snoc)
    with res fresh show ?thesis by simp
  qed
qed

theorem deriveNormal_keeps_distinct_witness:
  "triInBounds cubeVerts rightTri
   \<and> distinctNormals (1 / 1000) [Vector 1 0 0]
   \<and> (\<exists>normals'. deriveNormal (1 / 1000) [Vector 1 0 0] cubeVerts rightTri = Some normals'
         \<and> distinctNormals (1 / 1000) normals')"
  using deriveNormal_keeps_distinct [OF rightTri_in_bounds, of "1 / 1000" "[Vector 1 0 0]"]
  by (auto simp: rightTri_in_bounds)

section \<open>Properties of the mesh accessors\<close>

text \<open>
  Claim C9. After \<^verbatim>\<open>setCubeTriangles\<close> the triangle list holds exactly 12
  triangles, and every vertex index of every one of them lies in the range 1
  to 8: index 0 is never referenced and index 8 is, so on a mesh whose vertex
  list has 8 entries (indices 0 to 7) a referenced index is outside the bounds
  of the vertex list.
\<close>

theorem setCubeTriangles_indices:
  "length (tris (setCubeTriangles n0 m)) = 12
   \<and> (\<forall>t \<in> set (tris (setCubeTriangles n0 m)).
        1 \<le> v0 t \<and> v0 t \<le> 8 \<and> 1 \<le> v1 t \<and> v1 t \<le> 8 \<and> 1 \<le> v2 t \<and> v2 t \<le> 8)
   \<and> (\<forall>t \<in> set (tris (setCubeTriangles n0 m)). \<not> vertexFound t 0)
   \<and> (\<exists>t \<in> set (tris (setCubeTriangles n0 m)). vertexFound t 8)
   \<and> verts (setCubeTriangles n0 m) = verts m
   \<and> (length (verts m) = 8 \<longrightarrow>
        (\<exists>t \<in> set (tris (setCubeTriangles n0 m)).
           vertexFound t 8 \<and> \<not> triInBounds (verts (setCubeTriangles n0 m)) t))"
  by (simp add: setCubeTriangles_def cubeTri_def vertexFound_def triInBounds_def inBounds_def)

theorem setCubeTriangles_indices_witness:
  "length (verts (blankMesh\<lparr>verts := cubeVerts\<rparr>)) = 8
   \<and> length (tris (setCubeTriangles (Vector 0 0 0) (blankMesh\<lparr>verts := cubeVerts\<rparr>))) = 12
   \<and> (\<exists>t \<in> set (tris (setCubeTriangles (Vector 0 0 0) (blankMesh\<lparr>verts := cubeVerts\<rparr>))).
         vertexFound t 8
         \<and> \<not> triInBounds (verts (setCubeTriangles (Vector 0 0 0) (blankMesh\<lparr>verts := cubeVerts\<rparr>))) t)"
  using setCubeTriangles_indices [of "Vector 0 0 0" "blankMesh\<lparr>verts := cubeVerts\<rparr>"]
  by (simp add: cubeVerts_def setCubeTriangles_def cubeTri_def vertexFound_def
      triInBounds_def inBounds_def)

text \<open>
  Claim C10. \<^verbatim>\<open>Mesh::empty\<close> returns true exactly when the vertex list is
  empty, whatever the triangle list holds: a mesh with a nonempty triangle
  list and no vertices is reported as empty.
\<close>

theorem mesh_empty_only_verts:
  "mesh_empty m = (verts m = [])
   \<and> mesh_empty (m\<lparr>tris := ts\<rparr>) = mesh_empty m
   \<and> mesh_empty (setCubeTriangles n0 (m\<lparr>verts := []\<rparr>))
   \<and> tris (setCubeTriangles n0 (m\<lparr>verts := []\<rparr>)) \<noteq> []"
  by (simp add: mesh_empty_def setCubeTriangles_def)

section \<open>Properties of vertex welding\<close>
























lemma soupMesh_remapped:
  "map (\<lambda>t. (v0 t, v1 t, v2 t)) (tris (mergeVerts floorHash 0 soupMesh)) = [(0, 1, 2), (1, 3, 2)]"
  by (simp add: mergeVerts_def soupMesh_def blankMesh_def floorHash_def samePoint_def
      includePnt_def Let_def remapTri_def remapIndex_def inBounds_def)







section \<open>Properties of Laplacian smoothing\<close>












section \<open>Properties of manifold validity\<close>

lemma sameEdge_cases:
  "sameEdge e e' = (if e' = e then (True, False) else if e' = revEdge e then (True, True) else (False, False))"
  by (cases e; cases e') (auto simp: sameEdge_def revEdge_def)

lemma revEdge_eq_self: "revEdge e = e \<longleftrightarrow> isLoop e"
  by (cases e) (auto simp: revEdge_def isLoop_def)

lemma incident_traverses: "incident t e \<longleftrightarrow> traverses t e \<or> traverses t (revEdge e)"
  by (cases e) (auto simp: incident_def traverses_def triEdges_def revEdge_def doubleton_eq_iff)

lemma hits3_empty:
  "filter fst (map (\<lambda>x. if x = e then (True, False) else if x = r then (True, True) else (False, False)) [a, b, c]) = []
   \<longleftrightarrow> e \<notin> {a, b, c} \<and> r \<notin> {a, b, c}"
  by auto

lemma hits3_opposite:
  assumes "\<not> (a = r \<and> b = r)" "\<not> (a = r \<and> c = r)" "\<not> (b = r \<and> c = r)"
  shows "filter fst (map (\<lambda>x. if x = e then (True, False) else if x = r then (True, True) else (False, False)) [a, b, c]) = [(True, True)]
   \<longleftrightarrow> r \<in> {a, b, c} \<and> e \<notin> {a, b, c}"
  using assms by auto

lemma hits3_loop:
  "(True, True) \<notin> set (filter fst (map (\<lambda>x. if x = e then (True, False) else if x = e then (True, True) else (False, False)) [a, b, c]))"
  by auto

lemma edgeHits_unfold:
  "edgeHits e t = filter fst (map (\<lambda>x. if x = e then (True, False) else if x = revEdge e then (True, True) else (False, False)) (triEdges t))"
proof -
  have "sameEdge e = (\<lambda>x. if x = e then (True, False) else if x = revEdge e then (True, True) else (False, False))"
    by (rule ext) (rule sameEdge_cases)
  then show ?thesis by (simp add: edgeHits_def)
qed

lemma edgeHits_empty: "edgeHits e t = [] \<longleftrightarrow> \<not> incident t e"
  unfolding edgeHits_unfold incident_traverses traverses_def triEdges_def hits3_empty by auto

lemma edgeHits_loop: "isLoop e \<Longrightarrow> (True, True) \<notin> set (edgeHits e t)"
  using hits3_loop unfolding edgeHits_unfold triEdges_def by (simp add: revEdge_eq_self)

lemma triEdges_twice:
  "\<lparr>ev0 = v0 t, ev1 = v1 t\<rparr> = r \<and> \<lparr>ev0 = v1 t, ev1 = v2 t\<rparr> = r \<Longrightarrow> isLoop r"
  "\<lparr>ev0 = v0 t, ev1 = v1 t\<rparr> = r \<and> \<lparr>ev0 = v2 t, ev1 = v0 t\<rparr> = r \<Longrightarrow> isLoop r"
  "\<lparr>ev0 = v1 t, ev1 = v2 t\<rparr> = r \<and> \<lparr>ev0 = v2 t, ev1 = v0 t\<rparr> = r \<Longrightarrow> isLoop r"
  by (cases r; auto simp: isLoop_def)+

lemma isLoop_revEdge: "isLoop (revEdge e) \<longleftrightarrow> isLoop e"
  by (auto simp: isLoop_def revEdge_def)

lemma edgeHits_opposite:
  assumes "\<not> isLoop e"
  shows "edgeHits e t = [(True, True)] \<longleftrightarrow> traverses t (revEdge e) \<and> \<not> traverses t e"
proof -
  have nl: "\<not> isLoop (revEdge e)" using assms by (simp add: isLoop_revEdge)
  show ?thesis
    unfolding edgeHits_unfold traverses_def triEdges_def
    by (subst hits3_opposite) (use nl triEdges_twice [of t "revEdge e"] in auto)
qed

lemma concat_singleton:
  "distinct xs \<Longrightarrow>
   concat (map f xs) = [y] \<longleftrightarrow> (\<exists>v \<in> set xs. f v = [y] \<and> (\<forall>u \<in> set xs. u \<noteq> v \<longrightarrow> f u = []))"
proof (induction xs)
  case Nil
  then show ?case by simp
next
  case (Cons x xs)
  have split: "f x @ concat (map f xs) = [y] \<longleftrightarrow>
      (f x = [y] \<and> concat (map f xs) = []) \<or> (f x = [] \<and> concat (map f xs) = [y])"
    by (cases "f x") (auto simp: Cons_eq_append_conv)
  from Cons show ?case
    unfolding list.map concat.simps split
    by auto
qed

lemma edgeOk_iff:
  "edgeOk ts a e \<longleftrightarrow>
     (\<exists>b < length ts. b \<noteq> a \<and> edgeHits e (ts ! b) = [(True, True)]
        \<and> (\<forall>c < length ts. c \<noteq> a \<and> c \<noteq> b \<longrightarrow> edgeHits e (ts ! c) = []))"
  unfolding edgeOk_def
  by (subst concat_singleton) (auto split: if_splits)

lemma edgeOk_not_loop: "edgeOk ts a e \<Longrightarrow> \<not> isLoop e"
  unfolding edgeOk_iff using edgeHits_loop [of e] by (metis list.set_intros(1))

lemma both_ways_loop:
  "e \<in> set (triEdges t) \<Longrightarrow> revEdge e \<in> set (triEdges t) \<Longrightarrow> \<exists>l \<in> set (triEdges t). isLoop l"
  by (cases e) (auto simp: triEdges_def revEdge_def isLoop_def)

lemma edgeValidity_sound:
  assumes mv: "edgeValidity m"
  shows "twoManifold (tris m)"
  unfolding twoManifold_def
proof (intro ballI)
  fix t e
  assume t: "t \<in> set (tris m)" and e: "e \<in> set (triEdges t)"
  from t obtain a where a: "a < length (tris m)" "tris m ! a = t"
    by (auto simp: in_set_conv_nth)
  have ok: "\<And>l. l \<in> set (triEdges t) \<Longrightarrow> edgeOk (tris m) a l"
    using mv a by (auto simp: edgeValidity_def)
  then have noloop: "\<And>l. l \<in> set (triEdges t) \<Longrightarrow> \<not> isLoop l"
    by (blast dest: edgeOk_not_loop)
  from ok [OF e] obtain b where b: "b < length (tris m)" "b \<noteq> a"
      "edgeHits e (tris m ! b) = [(True, True)]"
      and rest: "\<And>c. c < length (tris m) \<Longrightarrow> c \<noteq> a \<Longrightarrow> c \<noteq> b \<Longrightarrow> edgeHits e (tris m ! c) = []"
    unfolding edgeOk_iff by blast
  have nl: "\<not> isLoop e" using noloop e by blast
  have tb: "traverses (tris m ! b) (revEdge e)" "\<not> traverses (tris m ! b) e"
    using b(3) edgeHits_opposite [OF nl] by blast+
  have ta: "traverses (tris m ! a) e"
    using e a by (simp add: traverses_def)
  have tna: "\<not> traverses (tris m ! a) (revEdge e)"
    using both_ways_loop [OF e] noloop a by (auto simp: traverses_def)
  have "{i. i < length (tris m) \<and> incident (tris m ! i) e} = {a, b}"
  proof (intro set_eqI iffI)
    fix i assume "i \<in> {i. i < length (tris m) \<and> incident (tris m ! i) e}"
    then have "i < length (tris m)" "edgeHits e (tris m ! i) \<noteq> []"
      by (simp_all add: edgeHits_empty)
    with rest show "i \<in> {a, b}" by blast
  next
    fix i assume "i \<in> {a, b}"
    then show "i \<in> {i. i < length (tris m) \<and> incident (tris m ! i) e}"
      using a b ta tb by (auto simp: incident_traverses)
  qed
  with a b ta tna tb show "edgeManifold (tris m) e"
    unfolding edgeManifold_def oppositePair_def by blast
qed

lemma edgeValidity_complete:
  assumes tm: "twoManifold (tris m)"
  shows "edgeValidity m"
  unfolding edgeValidity_def
proof (intro ballI)
  fix a e
  assume "a \<in> set [0..<length (tris m)]" and e: "e \<in> set (triEdges (tris m ! a))"
  then have a: "a < length (tris m)" by simp
  then have "tris m ! a \<in> set (tris m)" by simp
  with tm e have "edgeManifold (tris m) e"
    unfolding twoManifold_def by blast
  then obtain a' b where ab: "a' < length (tris m)" "b < length (tris m)" "a' \<noteq> b"
      and inc: "{i. i < length (tris m) \<and> incident (tris m ! i) e} = {a', b}"
      and opp: "oppositePair (tris m ! a') (tris m ! b) e"
    unfolding edgeManifold_def by blast
  have ta: "traverses (tris m ! a) e" using e by (simp add: traverses_def)
  then have "a \<in> {i. i < length (tris m) \<and> incident (tris m ! i) e}"
    using a by (simp add: incident_traverses)
  with inc have "a = a' \<or> a = b" by blast
  with opp ta have aa: "a = a'" by (auto simp: oppositePair_def)
  from opp have nl: "\<not> isLoop e"
    by (auto simp: oppositePair_def revEdge_eq_self [symmetric])
  from opp have hb: "edgeHits e (tris m ! b) = [(True, True)]"
    by (simp add: edgeHits_opposite [OF nl] oppositePair_def)
  have "edgeHits e (tris m ! c) = []" if "c < length (tris m)" "c \<noteq> a" "c \<noteq> b" for c
  proof -
    from that aa inc have "\<not> incident (tris m ! c) e" by blast
    then show ?thesis by (simp add: edgeHits_empty)
  qed
  with ab aa hb show "edgeOk (tris m) a e"
    unfolding edgeOk_iff by blast
qed

lemma twoManifold_edge:
  "twoManifold ts \<Longrightarrow> t \<in> set ts \<Longrightarrow> e \<in> set (triEdges t) \<Longrightarrow> edgeManifold ts e"
  by (simp add: twoManifold_def)

lemma twoManifold_card:
  assumes "twoManifold ts" "t \<in> set ts" "e \<in> set (triEdges t)"
  shows "card {i. i < length ts \<and> incident (ts ! i) e} = 2"
proof -
  have "edgeManifold ts e" using assms by (rule twoManifold_edge)
  then obtain a b where "a \<noteq> b" "{i. i < length ts \<and> incident (ts ! i) e} = {a, b}"
    unfolding edgeManifold_def by (elim exE conjE)
  then show ?thesis by simp
qed

lemma twoManifold_no_same_direction:
  assumes tm: "twoManifold ts" and ab: "a < length ts" "b < length ts" "a \<noteq> b"
    and tr: "traverses (ts ! a) e" "traverses (ts ! b) e"
  shows False
proof -
  have "ts ! a \<in> set ts" "e \<in> set (triEdges (ts ! a))"
    using ab tr by (simp_all add: traverses_def)
  with tm have "edgeManifold ts e" by (rule twoManifold_edge)
  then obtain a' b' where inc: "{i. i < length ts \<and> incident (ts ! i) e} = {a', b'}"
      and opp: "oppositePair (ts ! a') (ts ! b') e"
    unfolding edgeManifold_def by (elim exE conjE)
  have "a \<in> {i. i < length ts \<and> incident (ts ! i) e}" "b \<in> {i. i < length ts \<and> incident (ts ! i) e}"
    using ab tr by (simp_all add: incident_traverses)
  then have "a \<in> {a', b'}" "b \<in> {a', b'}" unfolding inc by simp_all
  with ab(3) have "a = b' \<or> b = b'" by auto
  with opp tr show False by (auto simp: oppositePair_def)
qed


lemma edgeValidity_iff: "edgeValidity m \<longleftrightarrow> twoManifold (tris m)"
  using edgeValidity_sound edgeValidity_complete by blast

subsection \<open>The walk around a vertex\<close>

lemma set_fanTris: "set (fanTris ts v) = {i. i < length ts \<and> vertexFound (ts ! i) v}"
  by (auto simp: fanTris_def)

lemma fanLinked_incident:
  "fanLinked ts v a b \<longleftrightarrow>
     (\<exists>e \<in> set (triEdges (ts ! a)). (ev0 e = v \<or> ev1 e = v) \<and> incident (ts ! b) e)"
  by (simp add: fanLinked_def edgeHits_empty)

lemma set_fanGrow:
  "set (fanGrow ts v fan reached) =
     {b \<in> set fan. b \<in> set reached \<or> (\<exists>a \<in> set reached. fanLinked ts v a b)}"
  by (auto simp: fanGrow_def)

lemma fanGrow_cong: "set r = set r' \<Longrightarrow> fanGrow ts v fan r = fanGrow ts v fan r'"
  by (simp add: fanGrow_def)

lemma fanGrow_subset: "set (fanGrow ts v fan reached) \<subseteq> set fan"
  by (auto simp: set_fanGrow)

lemma fanGrow_mono: "set reached \<subseteq> set fan \<Longrightarrow> set reached \<subseteq> set (fanGrow ts v fan reached)"
  by (auto simp: set_fanGrow)

lemma fanGrow_closed:
  "set reached \<subseteq> set fan \<Longrightarrow>
   set (fanGrow ts v fan reached) = set reached \<longleftrightarrow> fanClosed ts v fan (set reached)"
  by (auto simp: set_fanGrow fanClosed_def)

lemma fanWalk_subset:
  "set reached \<subseteq> set fan \<Longrightarrow> set (fanWalk k ts v fan reached) \<subseteq> set fan"
  by (induction k arbitrary: reached) (simp_all add: fanGrow_subset)

lemma fanWalk_mono:
  "set reached \<subseteq> set fan \<Longrightarrow> set reached \<subseteq> set (fanWalk k ts v fan reached)"
proof (induction k arbitrary: reached)
  case 0
  then show ?case by simp
next
  case (Suc k)
  have "set reached \<subseteq> set (fanGrow ts v fan reached)"
    using Suc.prems by (rule fanGrow_mono)
  also have "\<dots> \<subseteq> set (fanWalk k ts v fan (fanGrow ts v fan reached))"
    by (rule Suc.IH) (rule fanGrow_subset)
  finally show ?case by simp
qed

lemma fanWalk_closed_stays:
  "set reached \<subseteq> set fan \<Longrightarrow> fanClosed ts v fan (set reached) \<Longrightarrow>
   set (fanWalk k ts v fan reached) = set reached"
proof (induction k arbitrary: reached)
  case 0
  then show ?case by simp
next
  case (Suc k)
  have eq: "set (fanGrow ts v fan reached) = set reached"
    using Suc.prems by (simp add: fanGrow_closed)
  have "set (fanWalk k ts v fan (fanGrow ts v fan reached)) = set (fanGrow ts v fan reached)"
    by (rule Suc.IH) (simp_all add: eq Suc.prems)
  with eq show ?case by simp
qed

lemma fanWalk_progress:
  "set reached \<subseteq> set fan \<Longrightarrow>
   fanClosed ts v fan (set (fanWalk k ts v fan reached))
   \<or> card (set reached) + k \<le> card (set (fanWalk k ts v fan reached))"
proof (induction k arbitrary: reached)
  case 0
  then show ?case by simp
next
  case (Suc k)
  let ?g = "fanGrow ts v fan reached"
  have gsub: "set ?g \<subseteq> set fan" by (rule fanGrow_subset)
  show ?case
  proof (cases "fanClosed ts v fan (set reached)")
    case True
    have "set (fanWalk (Suc k) ts v fan reached) = set reached"
      using Suc.prems True by (rule fanWalk_closed_stays)
    with True show ?thesis by simp
  next
    case False
    then have "set ?g \<noteq> set reached"
      using Suc.prems by (simp add: fanGrow_closed)
    moreover have "set reached \<subseteq> set ?g" using Suc.prems by (rule fanGrow_mono)
    ultimately have "set reached \<subset> set ?g" by blast
    then have "card (set reached) < card (set ?g)"
      by (simp add: psubset_card_mono)
    with Suc.IH [OF gsub] show ?thesis by auto
  qed
qed

lemma fanWalk_full_closed:
  assumes "set reached \<subseteq> set fan" "reached \<noteq> []"
  shows "fanClosed ts v fan (set (fanWalk (length fan) ts v fan reached))"
proof (rule ccontr)
  assume "\<not> ?thesis"
  with fanWalk_progress [OF assms(1), of ts v "length fan"]
  have "card (set reached) + length fan \<le> card (set (fanWalk (length fan) ts v fan reached))"
    by blast
  moreover have "card (set (fanWalk (length fan) ts v fan reached)) \<le> card (set fan)"
    by (rule card_mono) (simp_all add: fanWalk_subset assms(1))
  moreover have "card (set fan) \<le> length fan" by (rule card_length)
  moreover have "0 < card (set reached)" using assms(2) by (simp add: card_gt_0_iff)
  ultimately show False by linarith
qed

lemma fanRel_linked:
  "(a, b) \<in> fanRel ts v \<longleftrightarrow>
     a \<in> set (fanTris ts v) \<and> b \<in> set (fanTris ts v) \<and> fanLinked ts v a b"
  by (auto simp: fanRel_def set_fanTris fanLinked_incident)

lemma fanWalk_sound:
  assumes fan: "fan = fanTris ts v"
  shows "set reached \<subseteq> set fan \<Longrightarrow> \<forall>x \<in> set reached. (a, x) \<in> (fanRel ts v)\<^sup>* \<Longrightarrow>
         \<forall>x \<in> set (fanWalk k ts v fan reached). (a, x) \<in> (fanRel ts v)\<^sup>*"
proof (induction k arbitrary: reached)
  case 0
  then show ?case by simp
next
  case (Suc k)
  have "\<forall>x \<in> set (fanGrow ts v fan reached). (a, x) \<in> (fanRel ts v)\<^sup>*"
  proof
    fix x assume "x \<in> set (fanGrow ts v fan reached)"
    then have x: "x \<in> set fan" "x \<in> set reached \<or> (\<exists>y \<in> set reached. fanLinked ts v y x)"
      by (simp_all add: set_fanGrow)
    from x(2) show "(a, x) \<in> (fanRel ts v)\<^sup>*"
    proof
      assume "x \<in> set reached"
      with Suc.prems(2) show ?thesis by blast
    next
      assume "\<exists>y \<in> set reached. fanLinked ts v y x"
      then obtain y where y: "y \<in> set reached" "fanLinked ts v y x" by blast
      with Suc.prems(1) x(1) have "(y, x) \<in> fanRel ts v"
        unfolding fanRel_linked fan by blast
      moreover from y(1) Suc.prems(2) have "(a, y) \<in> (fanRel ts v)\<^sup>*" by blast
      ultimately show ?thesis by (rule rtrancl_into_rtrancl [rotated])
    qed
  qed
  with Suc.IH [OF fanGrow_subset] show ?case by simp
qed

lemma fanClosed_reach:
  assumes cl: "fanClosed ts v (fanTris ts v) S" and a: "a \<in> S"
  shows "(a, b) \<in> (fanRel ts v)\<^sup>* \<Longrightarrow> b \<in> S"
proof (induction rule: rtrancl_induct)
  case base
  from a show ?case .
next
  case (step y z)
  from step.hyps(2) have "z \<in> set (fanTris ts v)" "fanLinked ts v y z"
    by (simp_all add: fanRel_linked)
  with cl step.IH show ?case unfolding fanClosed_def by blast
qed

lemma sym_fanRel: "sym (fanRel ts v)"
proof (rule symI)
  fix a b assume "(a, b) \<in> fanRel ts v"
  then obtain e where ab: "a < length ts" "b < length ts" "vertexFound (ts ! a) v"
      "vertexFound (ts ! b) v"
    and e: "e \<in> set (triEdges (ts ! a))" "ev0 e = v \<or> ev1 e = v" "incident (ts ! b) e"
    unfolding fanRel_def by blast
  from e(3) obtain e' where e': "e' \<in> set (triEdges (ts ! b))" "{ev0 e', ev1 e'} = {ev0 e, ev1 e}"
    unfolding incident_def by blast
  from e'(2) e(2) have "ev0 e' = v \<or> ev1 e' = v" by (auto simp: doubleton_eq_iff)
  moreover from e(1) e'(2) have "incident (ts ! a) e'" unfolding incident_def by blast
  ultimately show "(b, a) \<in> fanRel ts v"
    using ab e'(1) unfolding fanRel_def by blast
qed

lemma set_usedVerts: "v \<in> set (usedVerts ts) \<longleftrightarrow> (\<exists>t \<in> set ts. vertexFound t v)"
  by (auto simp: usedVerts_def vertexFound_def)

lemma singleFan_unused:
  assumes "v \<notin> set (usedVerts ts)"
  shows "singleFan ts v"
  unfolding singleFan_def
proof (intro allI impI)
  fix a b
  assume "a < length ts \<and> b < length ts \<and> vertexFound (ts ! a) v \<and> vertexFound (ts ! b) v"
  then have "ts ! a \<in> set ts" "vertexFound (ts ! a) v" by simp_all
  with assms show "(a, b) \<in> (fanRel ts v)\<^sup>*" by (auto simp: set_usedVerts)
qed

lemma fanWalk_filter:
  "\<exists>P. reached = filter P fan \<Longrightarrow> \<exists>P. fanWalk k ts v fan reached = filter P fan"
proof (induction k arbitrary: reached)
  case 0
  then show ?case by simp
next
  case (Suc k)
  have "\<exists>P. fanGrow ts v fan reached = filter P fan"
    unfolding fanGrow_def by blast
  then show ?case by (simp add: Suc.IH)
qed

text \<open>The walk reaches every triangle of the fan exactly when the fan is one
  connected piece.\<close>

lemma fanOk_iff: "fanOk ts v \<longleftrightarrow> singleFan ts v"
proof (cases "fanTris ts v")
  case Nil
  then have "{i. i < length ts \<and> vertexFound (ts ! i) v} = {}"
    using set_fanTris [of ts v] by simp
  then have "singleFan ts v" unfolding singleFan_def by blast
  with Nil show ?thesis by (simp add: fanOk_def)
next
  case (Cons a rest)
  let ?fan = "fanTris ts v"
  let ?R = "(fanRel ts v)\<^sup>*"
  let ?w = "fanWalk (length ?fan) ts v ?fan [a]"
  have a: "a \<in> set ?fan" by (simp add: Cons)
  have sub: "set [a] \<subseteq> set ?fan" using a by simp
  have wsub: "set ?w \<subseteq> set ?fan" using sub by (rule fanWalk_subset)
  have aw: "a \<in> set ?w" using fanWalk_mono [OF sub, of "length ?fan" ts v] by simp
  have closed: "fanClosed ts v ?fan (set ?w)"
    by (rule fanWalk_full_closed [OF sub]) simp
  have sound: "\<forall>x \<in> set ?w. (a, x) \<in> ?R"
    by (rule fanWalk_sound [OF refl sub]) simp
  have reach: "x \<in> set ?w \<longleftrightarrow> x \<in> set ?fan \<and> (a, x) \<in> ?R" for x
  proof
    assume "x \<in> set ?w"
    with wsub sound show "x \<in> set ?fan \<and> (a, x) \<in> ?R" by blast
  next
    assume "x \<in> set ?fan \<and> (a, x) \<in> ?R"
    then show "x \<in> set ?w" using fanClosed_reach [OF closed aw] by simp
  qed
  have "\<exists>P. [a] = filter P ?fan"
  proof
    have "distinct ?fan" by (simp add: fanTris_def)
    then have "a \<notin> set rest" by (simp add: Cons)
    then have "filter (\<lambda>x. x = a) rest = []" by (auto simp: filter_empty_conv)
    then show "[a] = filter (\<lambda>x. x = a) ?fan" by (simp add: Cons)
  qed
  then have "\<exists>P. ?w = filter P ?fan" by (rule fanWalk_filter)
  then obtain P where P: "?w = filter P ?fan" by blast
  have "?w = ?fan \<longleftrightarrow> (\<forall>x \<in> set ?fan. x \<in> set ?w)"
  proof
    assume "\<forall>x \<in> set ?fan. x \<in> set ?w"
    then have "\<forall>x \<in> set ?fan. P x" unfolding P by simp
    then have "filter P ?fan = ?fan" by (simp add: filter_id_conv)
    with P show "?w = ?fan" by simp
  qed simp
  then have "?w = ?fan \<longleftrightarrow> (\<forall>x \<in> set ?fan. (a, x) \<in> ?R)"
    by (simp add: reach)
  moreover have "fanOk ts v \<longleftrightarrow> ?w = ?fan"
    by (simp add: fanOk_def Cons)
  ultimately have ok: "fanOk ts v \<longleftrightarrow> (\<forall>x \<in> set ?fan. (a, x) \<in> ?R)"
    by simp
  show ?thesis
  proof
    assume "fanOk ts v"
    with ok have all: "\<forall>x \<in> set ?fan. (a, x) \<in> ?R" by simp
    show "singleFan ts v"
      unfolding singleFan_def
    proof (intro allI impI)
      fix x y
      assume "x < length ts \<and> y < length ts \<and> vertexFound (ts ! x) v \<and> vertexFound (ts ! y) v"
      then have "x \<in> set ?fan" "y \<in> set ?fan" by (simp_all add: set_fanTris)
      with all have "(a, x) \<in> ?R" "(a, y) \<in> ?R" by blast+
      from this(1) have "(x, a) \<in> ?R"
        using sym_rtrancl [OF sym_fanRel] by (blast dest: symD)
      then show "(x, y) \<in> ?R" using \<open>(a, y) \<in> ?R\<close> by (rule rtrancl_trans)
    qed
  next
    assume sf: "singleFan ts v"
    have "\<forall>x \<in> set ?fan. (a, x) \<in> ?R"
    proof
      fix x assume "x \<in> set ?fan"
      with a sf show "(a, x) \<in> ?R"
        unfolding singleFan_def set_fanTris by blast
    qed
    with ok show "fanOk ts v" by simp
  qed
qed

lemma fanValidity_iff: "fanValidity m \<longleftrightarrow> singleFans (tris m)"
proof
  assume fv: "fanValidity m"
  show "singleFans (tris m)"
    unfolding singleFans_def
  proof
    fix v
    show "singleFan (tris m) v"
    proof (cases "v \<in> set (usedVerts (tris m))")
      case True
      with fv have "fanOk (tris m) v" by (simp add: fanValidity_def)
      then show ?thesis by (simp add: fanOk_iff)
    next
      case False
      then show ?thesis by (rule singleFan_unused)
    qed
  qed
next
  assume "singleFans (tris m)"
  then show "fanValidity m"
    by (simp add: fanValidity_def singleFans_def fanOk_iff)
qed

subsection \<open>Concrete meshes\<close>

lemma tet_edges_valid: "edgeValidity tetMesh"
  by code_simp

lemma tet_fans_valid: "fanValidity tetMesh"
  by code_simp

lemma touch_edges_valid: "edgeValidity touchMesh"
  by code_simp

lemma touch_fan_broken: "\<not> fanOk (tris touchMesh) 0"
  by code_simp

lemma touch_fans_invalid: "\<not> fanValidity touchMesh"
proof -
  have "0 \<in> set (usedVerts (tris touchMesh))"
    by (simp add: set_usedVerts vertexFound_def touchMesh_def)
  with touch_fan_broken show ?thesis unfolding fanValidity_def by blast
qed

text \<open>
  Claim C4, as amended. \<^verbatim>\<open>manifoldValidity\<close> returns true exactly when every
  edge of the mesh is incident to exactly two triangles, those two triangles
  traverse the edge in opposite directions, and the triangles around every
  vertex form a single fan. An edge with a number of incident triangles other
  than two, or two different triangles that traverse an edge in the same
  direction, make it return false.
\<close>

theorem manifoldValidity_iff:
  "(manifoldValidity m \<longleftrightarrow> twoManifold (tris m) \<and> singleFans (tris m))
   \<and> ((\<exists>t \<in> set (tris m). \<exists>e \<in> set (triEdges t).
          card {i. i < length (tris m) \<and> incident (tris m ! i) e} \<noteq> 2) \<longrightarrow> \<not> manifoldValidity m)
   \<and> ((\<exists>a b e. a < length (tris m) \<and> b < length (tris m) \<and> a \<noteq> b
          \<and> traverses (tris m ! a) e \<and> traverses (tris m ! b) e) \<longrightarrow> \<not> manifoldValidity m)"
proof -
  have eq: "manifoldValidity m \<longleftrightarrow> twoManifold (tris m) \<and> singleFans (tris m)"
    by (simp add: manifoldValidity_def edgeValidity_iff fanValidity_iff)
  moreover have "\<not> twoManifold (tris m)"
    if "\<exists>t \<in> set (tris m). \<exists>e \<in> set (triEdges t).
          card {i. i < length (tris m) \<and> incident (tris m ! i) e} \<noteq> 2"
  proof
    assume tm: "twoManifold (tris m)"
    from that obtain t e where "t \<in> set (tris m)" "e \<in> set (triEdges t)"
      "card {i. i < length (tris m) \<and> incident (tris m ! i) e} \<noteq> 2"
      by (elim bexE)
    with twoManifold_card [OF tm] show False by simp
  qed
  moreover have "\<not> twoManifold (tris m)"
    if "\<exists>a b e. a < length (tris m) \<and> b < length (tris m) \<and> a \<noteq> b
          \<and> traverses (tris m ! a) e \<and> traverses (tris m ! b) e"
  proof
    assume tm: "twoManifold (tris m)"
    from that obtain a b e where "a < length (tris m)" "b < length (tris m)" "a \<noteq> b"
      "traverses (tris m ! a) e" "traverses (tris m ! b) e"
      by (elim exE conjE)
    then show False by (rule twoManifold_no_same_direction [OF tm])
  qed
  ultimately show ?thesis by blast
qed

lemma soup_edge_once:
  "card {i. i < length (tris soupMesh) \<and> incident (tris soupMesh ! i) \<lparr>ev0 = 0, ev1 = 1\<rparr>} = 1"
proof -
  have "{i. i < length (tris soupMesh) \<and> incident (tris soupMesh ! i) \<lparr>ev0 = 0, ev1 = 1\<rparr>} = {0}"
    by (auto simp: soupMesh_def incident_def triEdges_def less_Suc_eq doubleton_eq_iff)
  then show ?thesis by simp
qed

lemma soup_has_boundary:
  "\<exists>t \<in> set (tris soupMesh). \<exists>e \<in> set (triEdges t).
     card {i. i < length (tris soupMesh) \<and> incident (tris soupMesh ! i) e} \<noteq> 2"
proof -
  have "\<lparr>v0 = 0, v1 = 1, v2 = 2, nrm = Vector 0 0 1\<rparr> \<in> set (tris soupMesh)"
    by (simp add: soupMesh_def)
  moreover have "\<lparr>ev0 = 0, ev1 = 1\<rparr> \<in> set (triEdges \<lparr>v0 = 0, v1 = 1, v2 = 2, nrm = Vector 0 0 1\<rparr>)"
    by (simp add: triEdges_def)
  moreover have "card {i. i < length (tris soupMesh) \<and> incident (tris soupMesh ! i) \<lparr>ev0 = 0, ev1 = 1\<rparr>} \<noteq> 2"
    by (simp add: soup_edge_once)
  ultimately show ?thesis by (intro bexI)
qed

lemma overlap_same_direction:
  "\<exists>a b e. a < length (tris overlapMesh) \<and> b < length (tris overlapMesh) \<and> a \<noteq> b
      \<and> traverses (tris overlapMesh ! a) e \<and> traverses (tris overlapMesh ! b) e"
proof -
  have "(0::nat) < length (tris overlapMesh) \<and> (4::nat) < length (tris overlapMesh) \<and> (0::nat) \<noteq> 4
      \<and> traverses (tris overlapMesh ! 0) \<lparr>ev0 = 0, ev1 = 2\<rparr>
      \<and> traverses (tris overlapMesh ! 4) \<lparr>ev0 = 0, ev1 = 2\<rparr>"
    by (simp add: overlapMesh_def tetMesh_def traverses_def triEdges_def)
  then show ?thesis by blast
qed

theorem manifoldValidity_iff_witness:
  "manifoldValidity tetMesh \<and> twoManifold (tris tetMesh) \<and> singleFans (tris tetMesh)
   \<and> (\<exists>t \<in> set (tris soupMesh). \<exists>e \<in> set (triEdges t).
         card {i. i < length (tris soupMesh) \<and> incident (tris soupMesh ! i) e} \<noteq> 2)
   \<and> \<not> manifoldValidity soupMesh
   \<and> (\<exists>a b e. a < length (tris overlapMesh) \<and> b < length (tris overlapMesh) \<and> a \<noteq> b
         \<and> traverses (tris overlapMesh ! a) e \<and> traverses (tris overlapMesh ! b) e)
   \<and> \<not> manifoldValidity overlapMesh"
proof -
  have "manifoldValidity tetMesh"
    by (simp add: manifoldValidity_def tet_edges_valid tet_fans_valid)
  with manifoldValidity_iff [of tetMesh] manifoldValidity_iff [of soupMesh]
    manifoldValidity_iff [of overlapMesh] soup_has_boundary overlap_same_direction
  show ?thesis by blast
qed

text \<open>
  The two tetrahedra that touch at one vertex: every edge is incident to
  exactly two triangles that traverse it in opposite directions, and
  \<^verbatim>\<open>manifoldValidity\<close> returns false, because the six triangles around the
  shared vertex form two fans.
\<close>

theorem manifoldValidity_not_edges_only:
  "twoManifold (tris touchMesh) \<and> \<not> manifoldValidity touchMesh"
proof -
  have "twoManifold (tris touchMesh)"
    using touch_edges_valid by (simp add: edgeValidity_iff)
  moreover have "\<not> manifoldValidity touchMesh"
    using touch_fans_invalid by (simp add: manifoldValidity_def)
  ultimately show ?thesis by simp
qed

end
